theory Spec2Isabelle
  imports Main "HOL-Library.Word"
begin

section \<open>Shadowsocks-over-WebSocket server: the per-connection engine of server.mjs\<close>

text \<open>
  The development embeds the connection handler of \<^verbatim>\<open>src/server.mjs\<close>
  (the callback of \<^verbatim>\<open>wss.on('connection', ...)\<close>): the inbound framer (lines 77-133),
  the address parser and relay state machine (lines 135-232), the outbound framer
  (lines 196-211) and the close handler (lines 234-238).

  A JavaScript \<^verbatim>\<open>Buffer\<close> is a list of bytes. The closure variables of one connection
  are the fields of the record \<open>conn\<close>; the objects the handler talks to (the WebSocket,
  the remote socket, the log) are fields of the same record, so that each effect of the
  code is an update that can be observed. An \<^verbatim>\<open>async\<close> handler runs until it returns,
  throws or reaches an \<^verbatim>\<open>await\<close>; the value \<open>flow\<close> says which.
\<close>

subsection \<open>Buffers\<close>

type_synonym byte = "8 word"
type_synonym bytes = "byte list"

datatype js_error = RangeError | TypeError

text \<open>
  \<^verbatim>\<open>buf.readUInt16BE(off)\<close>: Node throws a RangeError (ERR_OUT_OF_RANGE) unless
  \<open>off + 2 \<le> length buf\<close>; \<open>None\<close> is that throw.
\<close>

definition readUInt16BE :: "bytes \<Rightarrow> nat \<Rightarrow> nat option" where
  "readUInt16BE buf off =
     (if off + 2 \<le> length buf
      then Some (unat (buf ! off) * 256 + unat (buf ! (off + 1)))
      else None)"

text \<open>
  \<^verbatim>\<open>Buffer.alloc(2).writeUInt16BE(v)\<close>: the two bytes of \<open>v\<close>, high byte first; Node throws
  a RangeError when \<open>v\<close> does not fit in 16 bits.
\<close>

definition writeUInt16BE :: "nat \<Rightarrow> bytes option" where
  "writeUInt16BE v =
     (if v < 65536 then Some [of_nat (v div 256), of_nat (v mod 256)] else None)"

text \<open>\<^verbatim>\<open>buf.subarray(a, b)\<close> for \<open>a \<le> b\<close>: both ends are clamped to the buffer.\<close>

definition subarray :: "bytes \<Rightarrow> nat \<Rightarrow> nat \<Rightarrow> bytes" where
  "subarray buf a b = take (b - a) (drop a buf)"

text \<open>\<^verbatim>\<open>buf.toString('binary')\<close>: one character per byte, with the byte's code.\<close>

definition toString_binary :: "bytes \<Rightarrow> string" where
  "toString_binary buf = map (\<lambda>b. char_of (unat b)) buf"

subsection \<open>External collaborators\<close>

text \<open>
  Modelled from the spec: \<^verbatim>\<open>AEAD.getSize(METHOD)\<close> of \<^verbatim>\<open>aead.mjs\<close> is not part of the
  sources. The spec fixes the sizes for both methods: the salt has 32 bytes and the
  authentication tag 16.
\<close>

definition SALT_SIZE :: nat where
  "SALT_SIZE = 32"

definition TAG_SIZE :: nat where
  "TAG_SIZE = 16"

text \<open>
  The functions the handler imports and the theory does not look into: the sealing and
  opening primitives of \<^verbatim>\<open>node:crypto\<close> behind the class \<^verbatim>\<open>AEAD\<close> (key, nonce and
  plaintext to ciphertext followed by tag; key, nonce, ciphertext and tag to plaintext or
  failure), \<^verbatim>\<open>hkdfSync('sha1', KEY, salt, 'ss-subkey', KEY_SIZE)\<close> as a function of the
  salt, the address printers \<^verbatim>\<open>inet_ntoa\<close> and \<^verbatim>\<open>inet_ntop\<close> of \<^verbatim>\<open>util.mjs\<close>, and the answer
  of \<^verbatim>\<open>remote.write(p)\<close> (\<open>False\<close> is "wait for drain") as a function of what was written
  before and of \<open>p\<close>.
\<close>

record ext =
  seal :: "bytes \<Rightarrow> nat \<Rightarrow> bytes \<Rightarrow> bytes"
  unseal :: "bytes \<Rightarrow> nat \<Rightarrow> bytes \<Rightarrow> bytes \<Rightarrow> bytes option"
  hkdf :: "bytes \<Rightarrow> bytes"
  inet_ntoa :: "bytes \<Rightarrow> string"
  inet_ntop :: "bytes \<Rightarrow> string"
  write_ok :: "bytes list \<Rightarrow> bytes \<Rightarrow> bool"

text \<open>
  Modelled from the spec: the class \<^verbatim>\<open>AEAD\<close> of \<^verbatim>\<open>aead.mjs\<close> is not part of the sources.
  By the spec a context holds a sub-key and a 12-byte nonce that starts at zero and is
  incremented as a little-endian unsigned integer after each frame; \<open>decrypt\<close> advances
  the nonce iff the tag verifies, \<open>encrypt\<close> advances it always.
\<close>

record AEAD =
  key :: bytes
  nonce :: nat

definition new_AEAD :: "bytes \<Rightarrow> AEAD" where
  "new_AEAD dk = \<lparr>key = dk, nonce = 0\<rparr>"

definition incr_nonce :: "nat \<Rightarrow> nat" where
  "incr_nonce n = (n + 1) mod 2 ^ 96"

definition decrypt :: "ext \<Rightarrow> AEAD \<Rightarrow> bytes \<Rightarrow> bytes \<Rightarrow> (bytes \<times> AEAD) option" where
  "decrypt E a cipherText authTag =
     (case unseal E (key a) (nonce a) cipherText authTag of
        None \<Rightarrow> None
      | Some plainText \<Rightarrow> Some (plainText, a\<lparr>nonce := incr_nonce (nonce a)\<rparr>))"

definition encrypt :: "ext \<Rightarrow> AEAD \<Rightarrow> bytes \<Rightarrow> bytes \<times> AEAD" where
  "encrypt E a plainText =
     (seal E (key a) (nonce a) plainText, a\<lparr>nonce := incr_nonce (nonce a)\<rparr>)"

subsection \<open>Connection state\<close>

datatype stage = CLOSED | OPENING | OPEN | WRITING

datatype level = Warn | Error

text \<open>The \<^verbatim>\<open>await\<close> at which a handler is suspended: line 176 or line 226.\<close>

datatype cont = NoCont | AtConnect | AtDrain

datatype flow = Go | Ret | Throw js_error | Await cont

text \<open>
  The remote socket: whether it was destroyed, paused or half-closed, and the buffers
  passed to \<^verbatim>\<open>remote.write\<close>, in order.
\<close>

record socket =
  destroyed :: bool
  paused :: bool
  ended :: bool
  written :: "bytes list"

text \<open>
  The closure variables of lines 59-73 (\<open>target\<close> is the variable \<^verbatim>\<open>to\<close>, as address and
  port), then the WebSocket (\<open>ws_ready\<close> is \<^verbatim>\<open>ws.readyState === WebSocket.OPEN\<close>,
  \<open>ws_closed\<close> says that the close handler has run, \<open>ws_sent\<close> lists the messages given to
  \<^verbatim>\<open>ws.send\<close>), the calls of \<^verbatim>\<open>warnlog\<close> and \<^verbatim>\<open>errorlog\<close>, the pending \<^verbatim>\<open>await\<close> and the
  exceptions that left a handler. The counter \<^verbatim>\<open>chunkIndex\<close> is a natural number (the
  JavaScript number is exact below \<open>2^53\<close> frames). The close handler sets \<^verbatim>\<open>rx\<close> and \<^verbatim>\<open>tx\<close>
  to null; they are the empty list here, and no handler that reads them runs afterwards.
\<close>

record conn =
  rx :: "bytes list"
  decipher :: "AEAD option"
  cipherTextSize :: nat
  chunkIndex :: nat
  payloads :: "bytes list"
  tx :: "bytes list"
  cipher :: "AEAD option"
  stage :: stage
  target :: "(string \<times> nat) option"
  remote :: "socket option"
  ws_ready :: bool
  ws_paused :: bool
  ws_closed :: bool
  ws_sent :: "bytes list"
  logs :: "level list"
  pending :: cont
  uncaught :: "js_error list"

definition init_conn :: conn where
  "init_conn = \<lparr>rx = [], decipher = None, cipherTextSize = 2, chunkIndex = 0,
     payloads = [], tx = [], cipher = None, stage = CLOSED, target = None,
     remote = None, ws_ready = True, ws_paused = False, ws_closed = False,
     ws_sent = [], logs = [], pending = NoCont, uncaught = []\<rparr>"

text \<open>\<^verbatim>\<open>ws.terminate()\<close>: the WebSocket leaves the state OPEN; its close event comes later.\<close>

definition ws_terminate :: "conn \<Rightarrow> conn" where
  "ws_terminate c = c\<lparr>ws_ready := False\<rparr>"

definition warnlog :: "conn \<Rightarrow> conn" where
  "warnlog c = c\<lparr>logs := logs c @ [Warn]\<rparr>"

definition errorlog :: "conn \<Rightarrow> conn" where
  "errorlog c = c\<lparr>logs := logs c @ [Error]\<rparr>"

subsection \<open>Inbound framer (lines 77-133)\<close>

text \<open>
  The loop of lines 103-132 on the local variable \<^verbatim>\<open>data\<close>. It ends with \<open>Go\<close> when the
  data is used up or too short for the next frame (kept in \<^verbatim>\<open>rx\<close>), with \<open>Ret\<close> after
  \<^verbatim>\<open>ws.terminate()\<close> when a tag does not verify, and with \<open>Throw\<close> where JavaScript would
  throw: a method call on a null \<^verbatim>\<open>decipher\<close>, or \<^verbatim>\<open>readUInt16BE(0)\<close> on a plaintext of
  fewer than two bytes.
\<close>

function decrypt_loop :: "ext \<Rightarrow> conn \<Rightarrow> bytes \<Rightarrow> flow \<times> conn" where
  "decrypt_loop E c data =
     (if length data > 0 then
        if length data < cipherTextSize c + TAG_SIZE then (Go, c\<lparr>rx := rx c @ [data]\<rparr>)
        else
          (case decipher c of
             None \<Rightarrow> (Throw TypeError, c)
           | Some d \<Rightarrow>
               (case decrypt E d
                       (subarray (subarray data 0 (cipherTextSize c + TAG_SIZE)) 0 (cipherTextSize c))
                       (drop (cipherTextSize c) (subarray data 0 (cipherTextSize c + TAG_SIZE))) of
                  None \<Rightarrow> (Ret, ws_terminate (warnlog c))
                | Some (plainText, d') \<Rightarrow>
                    if chunkIndex c mod 2 = 0 then
                      (case readUInt16BE plainText 0 of
                         None \<Rightarrow> (Throw RangeError, c\<lparr>decipher := Some d'\<rparr>)
                       | Some L \<Rightarrow>
                           decrypt_loop E
                             (c\<lparr>decipher := Some d', cipherTextSize := L,
                                chunkIndex := chunkIndex c + 1\<rparr>)
                             (drop (cipherTextSize c + TAG_SIZE) data))
                    else
                      decrypt_loop E
                        (c\<lparr>decipher := Some d', cipherTextSize := 2,
                           payloads := payloads c @ [plainText],
                           chunkIndex := chunkIndex c + 1\<rparr>)
                        (drop (cipherTextSize c + TAG_SIZE) data)))
      else (Go, c))"
  by pat_completeness auto
termination
  by (relation "measure (\<lambda>(E, c, data). length data)") (auto simp: TAG_SIZE_def)

declare decrypt_loop.simps [simp del]

text \<open>
  Lines 78-133: the bytes kept in \<^verbatim>\<open>rx\<close> are put in front of the message, the first
  \<open>SALT_SIZE\<close> bytes of the stream make the decipher, and the loop decrypts the frames.
\<close>

definition retrieve :: "conn \<Rightarrow> bytes \<Rightarrow> conn \<times> bytes" where
  "retrieve c data =
     (if length (rx c) > 0 then (c\<lparr>rx := []\<rparr>, concat (rx c @ [data])) else (c, data))"

definition init_decipher :: "ext \<Rightarrow> conn \<Rightarrow> bytes \<Rightarrow> flow \<times> conn" where
  "init_decipher E c data =
     (if decipher c = None then
        if length data < SALT_SIZE then (Ret, c\<lparr>rx := rx c @ [data]\<rparr>)
        else decrypt_loop E
               (c\<lparr>decipher := Some (new_AEAD (hkdf E (subarray data 0 SALT_SIZE)))\<rparr>)
               (drop SALT_SIZE data)
      else decrypt_loop E c data)"

definition frame_in :: "ext \<Rightarrow> conn \<Rightarrow> bytes \<Rightarrow> flow \<times> conn" where
  "frame_in E c data = (case retrieve c data of (c1, data1) \<Rightarrow> init_decipher E c1 data1)"

subsection \<open>Address header (lines 145-170)\<close>

text \<open>
  The \<^verbatim>\<open>switch\<close> on \<^verbatim>\<open>address[0]\<close>. On an empty buffer \<^verbatim>\<open>address[0]\<close> is undefined and the
  default branch is taken. For a domain, \<^verbatim>\<open>address[1]\<close> of a one-byte buffer is undefined,
  the offset \<^verbatim>\<open>2 + address[1]\<close> is NaN and \<^verbatim>\<open>readUInt16BE\<close> throws a RangeError. The
  result is the address, the port and the bytes after the header.
\<close>

datatype parsed = Parsed string nat bytes | InvalidAtyp | ParseThrow js_error

definition parse_address :: "ext \<Rightarrow> bytes \<Rightarrow> parsed" where
  "parse_address E address =
     (if address = [] then InvalidAtyp
      else if address ! 0 = 3 then
        (if length address < 2 then ParseThrow RangeError
         else
           (case readUInt16BE address (2 + unat (address ! 1)) of
              None \<Rightarrow> ParseThrow RangeError
            | Some port \<Rightarrow>
                Parsed (toString_binary (subarray address 2 (2 + unat (address ! 1)))) port
                  (drop (4 + unat (address ! 1)) address)))
      else if address ! 0 = 1 then
        (case readUInt16BE address 5 of
           None \<Rightarrow> ParseThrow RangeError
         | Some port \<Rightarrow> Parsed (inet_ntoa E (subarray address 1 5)) port (drop 7 address))
      else if address ! 0 = 4 then
        (case readUInt16BE address 17 of
           None \<Rightarrow> ParseThrow RangeError
         | Some port \<Rightarrow> Parsed (inet_ntop E (subarray address 1 17)) port (drop 19 address))
      else InvalidAtyp)"

subsection \<open>Relay (lines 135-232)\<close>

text \<open>
  Lines 223-230: \<^verbatim>\<open>remote.write(payloads.shift())\<close> until the queue is empty. When a write
  answers \<^verbatim>\<open>false\<close> the handler pauses the WebSocket and awaits the drain event.
  A null \<^verbatim>\<open>remote\<close> would throw a TypeError before \<^verbatim>\<open>shift\<close> is evaluated.
\<close>

function drain_loop :: "ext \<Rightarrow> conn \<Rightarrow> flow \<times> conn" where
  "drain_loop E c =
     (case payloads c of
        [] \<Rightarrow> (Ret, c\<lparr>stage := OPEN\<rparr>)
      | p # ps \<Rightarrow>
          (case remote c of
             None \<Rightarrow> (Throw TypeError, c)
           | Some s \<Rightarrow>
               if \<not> write_ok E (written s) p
               then (Await AtDrain,
                     c\<lparr>payloads := ps, remote := Some (s\<lparr>written := written s @ [p]\<rparr>),
                       ws_paused := True\<rparr>)
               else drain_loop E
                      (c\<lparr>payloads := ps, remote := Some (s\<lparr>written := written s @ [p]\<rparr>)\<rparr>)))"
  by pat_completeness auto
termination
  by (relation "measure (\<lambda>(E, c). length (payloads c))") auto

declare drain_loop.simps [simp del]

text \<open>Lines 222-231.\<close>

definition write_payloads :: "ext \<Rightarrow> conn \<Rightarrow> flow \<times> conn" where
  "write_payloads E c = drain_loop E (c\<lparr>stage := WRITING\<rparr>)"

text \<open>
  Lines 135-176, up to the \<^verbatim>\<open>await\<close> of \<^verbatim>\<open>connect(port, addr)\<close>, and lines 222-231 when
  the stage is OPEN.
\<close>

definition consume :: "ext \<Rightarrow> conn \<Rightarrow> flow \<times> conn" where
  "consume E c =
     (if length (payloads c) = 0 then (Ret, c)
      else if stage c = OPENING \<or> stage c = WRITING then (Ret, c)
      else if stage c = CLOSED then
        (case parse_address E (hd (payloads c)) of
           InvalidAtyp \<Rightarrow>
             (Ret, ws_terminate (warnlog (c\<lparr>stage := OPENING, payloads := tl (payloads c)\<rparr>)))
         | ParseThrow e \<Rightarrow> (Throw e, c\<lparr>stage := OPENING, payloads := tl (payloads c)\<rparr>)
         | Parsed addr port address \<Rightarrow>
             (Await AtConnect,
              c\<lparr>stage := OPENING,
                payloads := (if length address \<noteq> 0 then tl (payloads c) @ [address]
                             else tl (payloads c)),
                target := Some (addr, port), ws_paused := True\<rparr>))
      else write_payloads E c)"

text \<open>The message handler, lines 77-232, up to its first \<^verbatim>\<open>await\<close>.\<close>

definition on_message :: "ext \<Rightarrow> conn \<Rightarrow> bytes \<Rightarrow> flow \<times> conn" where
  "on_message E c data =
     (case frame_in E c data of (Go, c1) \<Rightarrow> consume E c1 | (f, c1) \<Rightarrow> (f, c1))"

text \<open>
  Lines 176-232 after \<^verbatim>\<open>connect\<close> has resolved; \<open>salt\<close> is the value of
  \<^verbatim>\<open>randomBytes(SALT_SIZE)\<close>. Lines 178-181 when it has rejected.
\<close>

definition new_socket :: socket where
  "new_socket = \<lparr>destroyed = False, paused = False, ended = False, written = []\<rparr>"

definition on_connected :: "ext \<Rightarrow> conn \<Rightarrow> bytes \<Rightarrow> flow \<times> conn" where
  "on_connected E c salt =
     (if \<not> ws_ready c
      then (Ret, c\<lparr>remote := Some (new_socket\<lparr>destroyed := True\<rparr>), ws_paused := False\<rparr>)
      else write_payloads E
             (c\<lparr>remote := Some new_socket, ws_paused := False, tx := tx c @ [salt],
                cipher := Some (new_AEAD (hkdf E salt))\<rparr>))"

definition on_connect_failed :: "conn \<Rightarrow> flow \<times> conn" where
  "on_connect_failed c = (Ret, ws_terminate (errorlog c))"

text \<open>Lines 227-231 after the drain event: \<^verbatim>\<open>ws.resume()\<close>, then the loop goes on.\<close>

definition on_drain :: "ext \<Rightarrow> conn \<Rightarrow> flow \<times> conn" where
  "on_drain E c = drain_loop E (c\<lparr>ws_paused := False\<rparr>)"

subsection \<open>Outbound framer (lines 196-211)\<close>

text \<open>
  The loop of lines 198-205 on the local variable \<^verbatim>\<open>data\<close>: each round encrypts the length
  of the next piece and the piece, and pushes both onto \<^verbatim>\<open>tx\<close>.
\<close>

function data_loop :: "ext \<Rightarrow> conn \<Rightarrow> bytes \<Rightarrow> flow \<times> conn" where
  "data_loop E c data =
     (if length data > 0 then
        (case writeUInt16BE (length (subarray data 0 0x3fff)) of
           None \<Rightarrow> (Throw RangeError, c)
         | Some len \<Rightarrow>
             (case cipher c of
                None \<Rightarrow> (Throw TypeError, c)
              | Some a \<Rightarrow>
                  data_loop E
                    (c\<lparr>tx := tx c @ [fst (encrypt E a len),
                                      fst (encrypt E (snd (encrypt E a len)) (subarray data 0 0x3fff))],
                       cipher := Some (snd (encrypt E (snd (encrypt E a len)) (subarray data 0 0x3fff)))\<rparr>)
                    (drop 0x3fff data)))
      else (Go, c))"
  by pat_completeness auto
termination
  by (relation "measure (\<lambda>(E, c, data). length data)") auto

declare data_loop.simps [simp del]

text \<open>
  The listener of the remote's data event: the loop, \<^verbatim>\<open>remote.pause()\<close>, one
  \<^verbatim>\<open>ws.send\<close> of everything in \<^verbatim>\<open>tx\<close>, and \<^verbatim>\<open>tx = []\<close>.
\<close>

definition on_remote_data :: "ext \<Rightarrow> conn \<Rightarrow> bytes \<Rightarrow> flow \<times> conn" where
  "on_remote_data E c data =
     (case data_loop E c data of
        (Go, c1) \<Rightarrow>
          (Ret, c1\<lparr>remote := map_option (\<lambda>s. s\<lparr>paused := True\<rparr>) (remote c1),
                  ws_sent := ws_sent c1 @ [concat (tx c1)], tx := []\<rparr>)
      | (f, c1) \<Rightarrow> (f, c1))"

subsection \<open>Close handler (lines 234-238) and the connection as a machine\<close>

definition on_close :: "conn \<Rightarrow> conn" where
  "on_close c =
     c\<lparr>remote := map_option (\<lambda>s. s\<lparr>destroyed := True\<rparr>) (remote c),
       decipher := None, cipher := None, rx := [], tx := []\<rparr>"

text \<open>
  What can happen to a connection. Each event runs one listener, or resumes the handler
  suspended at an \<^verbatim>\<open>await\<close>, until it returns, throws or awaits again; the states between
  events are the quiescent states. The WebSocket delivers messages while it is open; the
  connect and drain events belong to the pending \<^verbatim>\<open>await\<close>; the listeners of the remote
  exist once lines 196-219 have run (\<^verbatim>\<open>cipher\<close> is set) and fire until the socket is
  destroyed. \<open>SendDone\<close> is the callback of \<^verbatim>\<open>ws.send\<close>; the remote's close event finds
  the socket destroyed.
\<close>

datatype event =
    Message bytes
  | ConnectOk bytes
  | ConnectFail
  | Drain
  | RemoteData bytes
  | RemoteError
  | RemoteEnd
  | RemoteClose
  | SendDone
  | WsClose

definition settle :: "flow \<times> conn \<Rightarrow> conn" where
  "settle r =
     (case r of
        (Await k, c) \<Rightarrow> c\<lparr>pending := k\<rparr>
      | (Throw e, c) \<Rightarrow> c\<lparr>uncaught := uncaught c @ [e]\<rparr>
      | (_, c) \<Rightarrow> c)"

definition remote_live :: "conn \<Rightarrow> bool" where
  "remote_live c =
     (case remote c of None \<Rightarrow> False | Some s \<Rightarrow> \<not> destroyed s \<and> cipher c \<noteq> None)"

definition upd_remote :: "(socket \<Rightarrow> socket) \<Rightarrow> conn \<Rightarrow> conn" where
  "upd_remote f c = c\<lparr>remote := map_option f (remote c)\<rparr>"

fun step :: "ext \<Rightarrow> conn \<Rightarrow> event \<Rightarrow> conn option" where
  "step E c (Message data) =
     (if ws_ready c then Some (settle (on_message E c data)) else None)"
| "step E c (ConnectOk salt) =
     (if pending c = AtConnect \<and> length salt = SALT_SIZE
      then Some (settle (on_connected E (c\<lparr>pending := NoCont\<rparr>) salt)) else None)"
| "step E c ConnectFail =
     (if pending c = AtConnect
      then Some (settle (on_connect_failed (c\<lparr>pending := NoCont\<rparr>))) else None)"
| "step E c Drain =
     (if pending c = AtDrain
      then Some (settle (on_drain E (c\<lparr>pending := NoCont\<rparr>))) else None)"
| "step E c (RemoteData data) =
     (if remote_live c then Some (settle (on_remote_data E c data)) else None)"
| "step E c RemoteError =
     (if remote_live c then Some (errorlog c) else None)"
| "step E c RemoteEnd =
     (if remote_live c then Some (upd_remote (\<lambda>s. s\<lparr>ended := True\<rparr>) c) else None)"
| "step E c RemoteClose =
     (if remote_live c
      then Some (let c1 = upd_remote (\<lambda>s. s\<lparr>destroyed := True\<rparr>) c
                 in if ws_ready c1 then ws_terminate c1 else c1)
      else None)"
| "step E c SendDone =
     (if remote_live c then Some (upd_remote (\<lambda>s. s\<lparr>paused := False\<rparr>) c) else None)"
| "step E c WsClose =
     (if ws_closed c then None
      else Some (on_close (c\<lparr>ws_ready := False, ws_closed := True\<rparr>)))"

text \<open>A run of events from a state; \<open>None\<close> when an event cannot happen there.\<close>

fun run :: "ext \<Rightarrow> conn \<Rightarrow> event list \<Rightarrow> conn option" where
  "run E c [] = Some c"
| "run E c (e # es) = (case step E c e of None \<Rightarrow> None | Some c' \<Rightarrow> run E c' es)"

inductive reachable :: "ext \<Rightarrow> conn \<Rightarrow> bool" for E :: ext where
  reach_init: "reachable E init_conn"
| reach_step: "reachable E c \<Longrightarrow> step E c e = Some c' \<Longrightarrow> reachable E c'"

subsection \<open>The outbound framer, as the spec words it\<close>

text \<open>
  The values of the local variable \<^verbatim>\<open>payload\<close> in the successive rounds of the loop of
  lines 198-205: \<^verbatim>\<open>data.subarray(0, 0x3fff)\<close>, then the same on \<^verbatim>\<open>data.subarray(0x3fff)\<close>.
\<close>

function payload_chunks :: "bytes \<Rightarrow> bytes list" where
  "payload_chunks data =
     (if length data > 0 then subarray data 0 0x3fff # payload_chunks (drop 0x3fff data)
      else [])"
  by pat_completeness auto
termination
  by (relation "measure length") auto

declare payload_chunks.simps [simp del]

text \<open>
  The spec's side of the refinement: \<open>uint16be\<close>, the nonce after \<open>k\<close> frames, "for each
  chunk \<open>c\<close> emit \<open>encrypt(uint16be(|c|))\<close> then \<open>encrypt(c)\<close>" from a given nonce on, the
  split of an input into pieces of at most \<open>0x3FFF\<close> bytes, and the messages of a
  sequence of inputs, the salt in front of the first.
\<close>

definition uint16be :: "nat \<Rightarrow> bytes" where
  "uint16be v = [of_nat (v div 256), of_nat (v mod 256)]"

fun nonce_after :: "nat \<Rightarrow> nat \<Rightarrow> nat" where
  "nonce_after 0 n = n"
| "nonce_after (Suc k) n = nonce_after k (incr_nonce n)"

fun frames_spec :: "ext \<Rightarrow> bytes \<Rightarrow> nat \<Rightarrow> bytes list \<Rightarrow> bytes list" where
  "frames_spec E k n [] = []"
| "frames_spec E k n (p # ps) =
     seal E k n (uint16be (length p)) # seal E k (incr_nonce n) p
       # frames_spec E k (incr_nonce (incr_nonce n)) ps"

definition chunks_spec :: "bytes \<Rightarrow> bytes list" where
  "chunks_spec d =
     map (\<lambda>i. take 0x3FFF (drop (i * 0x3FFF) d)) [0 ..< (length d + 0x3FFE) div 0x3FFF]"

fun wrap_spec :: "ext \<Rightarrow> bytes \<Rightarrow> nat \<Rightarrow> bytes list \<Rightarrow> bytes list" where
  "wrap_spec E k n [] = []"
| "wrap_spec E k n (d # ds) =
     concat (frames_spec E k n (chunks_spec d))
       # wrap_spec E k (nonce_after (2 * length (chunks_spec d)) n) ds"

definition egress_spec :: "ext \<Rightarrow> bytes \<Rightarrow> bytes \<Rightarrow> nat \<Rightarrow> bytes list \<Rightarrow> bytes list" where
  "egress_spec E salt k n ds =
     (case wrap_spec E k n ds of [] \<Rightarrow> [] | m # ms \<Rightarrow> (salt @ m) # ms)"

subsection \<open>An instance of the external functions\<close>

text \<open>
  A sealing function that keeps the plaintext and appends a tag of \<open>TAG_SIZE\<close> bytes made
  of the nonce, with the opening function that checks the tag; the key derivation returns
  the salt and every write is accepted. On this instance the definitions evaluate.
\<close>

definition toy_ext :: ext where
  "toy_ext = \<lparr>seal = (\<lambda>k n pt. pt @ replicate TAG_SIZE (of_nat n)),
     unseal = (\<lambda>k n ct tag. if tag = replicate TAG_SIZE (of_nat n) then Some ct else None),
     hkdf = (\<lambda>salt. salt), inet_ntoa = toString_binary, inet_ntop = toString_binary,
     write_ok = (\<lambda>w p. True)\<rparr>"

subsection \<open>Notions used to state the properties of the inbound framer\<close>

text \<open>
  One round of the loop of lines 103-132 on a frame that is complete: the result that ends
  the loop, or the state for the next round.
\<close>

definition frame_step :: "ext \<Rightarrow> conn \<Rightarrow> bytes \<Rightarrow> (flow \<times> conn) + conn" where
  "frame_step E c chunk =
     (case decipher c of
        None \<Rightarrow> Inl (Throw TypeError, c)
      | Some d \<Rightarrow>
          (case decrypt E d (subarray chunk 0 (cipherTextSize c)) (drop (cipherTextSize c) chunk) of
             None \<Rightarrow> Inl (Ret, ws_terminate (warnlog c))
           | Some (plainText, d') \<Rightarrow>
               if chunkIndex c mod 2 = 0 then
                 (case readUInt16BE plainText 0 of
                    None \<Rightarrow> Inl (Throw RangeError, c\<lparr>decipher := Some d'\<rparr>)
                  | Some L \<Rightarrow>
                      Inr (c\<lparr>decipher := Some d', cipherTextSize := L,
                             chunkIndex := chunkIndex c + 1\<rparr>))
               else
                 Inr (c\<lparr>decipher := Some d', cipherTextSize := 2,
                        payloads := payloads c @ [plainText],
                        chunkIndex := chunkIndex c + 1\<rparr>)))"





subsection \<open>Notions used to state the properties of the relay\<close>

text \<open>
  The buffers written to the remote so far (none before there is a socket), and what
  holds of a connection between two events.
\<close>

definition written_of :: "conn \<Rightarrow> bytes list" where
  "written_of c = (case remote c of None \<Rightarrow> [] | Some s \<Rightarrow> written s)"

definition conn_inv :: "conn \<Rightarrow> bool" where
  "conn_inv c =
     ((pending c = AtConnect \<longrightarrow> stage c = OPENING \<and> remote c = None)
      \<and> (pending c = AtDrain \<longrightarrow> stage c = WRITING \<and> ws_paused c)
      \<and> (stage c = CLOSED \<longrightarrow> remote c = None \<and> pending c = NoCont)
      \<and> (stage c = OPEN \<longrightarrow> remote c \<noteq> None \<and> pending c = NoCont)
      \<and> (stage c = WRITING \<longrightarrow> remote c \<noteq> None \<and> pending c = AtDrain)
      \<and> (stage c = OPENING \<longrightarrow> remote c \<noteq> None \<longrightarrow>
            \<not> ws_ready c \<and> pending c = NoCont \<and> (\<exists>s. remote c = Some s \<and> destroyed s))
      \<and> (remote c = None \<longrightarrow> ws_sent c = [] \<and> tx c = [] \<and> cipher c = None))"

section \<open>Properties\<close>

subsection \<open>Outbound framer\<close>


lemma subarray_0: "subarray buf 0 n = take n buf"
  by (simp add: subarray_def)

lemma data_loop_frames:
  "cipher c = Some a \<Longrightarrow>
   data_loop E c data =
     (Go, c\<lparr>tx := tx c @ frames_spec E (key a) (nonce a) (payload_chunks data),
            cipher := Some (a\<lparr>nonce := nonce_after (2 * length (payload_chunks data)) (nonce a)\<rparr>)\<rparr>)"
proof (induction E c data arbitrary: a rule: data_loop.induct)
  case (1 E c data)
  show ?case
  proof (cases "length data > 0")
    case False
    then show ?thesis
      using "1.prems" by (simp add: data_loop.simps [of E c "[]"] payload_chunks.simps [of "[]"])
  next
    case True
    let ?p = "subarray data 0 0x3fff"
    have len: "writeUInt16BE (length ?p) = Some (uint16be (length ?p))"
      by (simp add: writeUInt16BE_def uint16be_def subarray_0)
    let ?a2 = "snd (encrypt E (snd (encrypt E a (uint16be (length ?p)))) ?p)"
    let ?c2 = "c\<lparr>tx := tx c @ [fst (encrypt E a (uint16be (length ?p))),
                  fst (encrypt E (snd (encrypt E a (uint16be (length ?p)))) ?p)],
                cipher := Some ?a2\<rparr>"
    have ih: "data_loop E ?c2 (drop 0x3fff data) =
      (Go, ?c2\<lparr>tx := tx ?c2 @ frames_spec E (key ?a2) (nonce ?a2) (payload_chunks (drop 0x3fff data)),
            cipher := Some (?a2\<lparr>nonce := nonce_after (2 * length (payload_chunks (drop 0x3fff data))) (nonce ?a2)\<rparr>)\<rparr>)"
      using "1.IH" [OF True len "1.prems", of ?a2] by simp
    have step: "data_loop E c data = data_loop E ?c2 (drop 0x3fff data)"
      using True len "1.prems" by (subst data_loop.simps) simp
    show ?thesis
      unfolding step ih
      using True by (simp add: payload_chunks.simps [of data] encrypt_def)
  qed
qed

lemma payload_chunks_concat: "concat (payload_chunks data) = data"
  by (induction data rule: payload_chunks.induct)
     (subst payload_chunks.simps, simp add: subarray_0)

lemma payload_chunks_bounds:
  "p \<in> set (payload_chunks data) \<Longrightarrow> 1 \<le> length p \<and> length p \<le> 0x3FFF"
proof (induction data rule: payload_chunks.induct)
  case (1 data)
  show ?case
  proof (cases "length data > 0")
    case False
    with "1.prems" show ?thesis by (simp add: payload_chunks.simps [of "[]"])
  next
    case True
    from "1.prems" True have "p = subarray data 0 0x3fff \<or> p \<in> set (payload_chunks (drop 0x3fff data))"
      by (simp add: payload_chunks.simps [of data])
    then show ?thesis
    proof
      assume "p = subarray data 0 0x3fff"
      with True show ?thesis by (cases data) (simp_all add: subarray_0)
    next
      assume "p \<in> set (payload_chunks (drop 0x3fff data))"
      with "1.IH" True show ?thesis by simp
    qed
  qed
qed

lemma unat_hi: "(v::nat) < 65536 \<Longrightarrow> unat (of_nat (v div 256) :: byte) = v div 256"
proof -
  assume "v < 65536"
  then have "v div 256 < 256" by (simp add: less_mult_imp_div_less)
  then show ?thesis by (simp add: unat_of_nat)
qed

lemma unat_lo: "unat (of_nat (v mod 256) :: byte) = v mod 256"
  by (simp add: unat_of_nat)

lemma uint16be_roundtrip: "v < 65536 \<Longrightarrow> readUInt16BE (uint16be v) 0 = Some v"
  unfolding readUInt16BE_def uint16be_def
  by (simp only: nth_Cons_0 nth_Cons_Suc unat_hi unat_lo list.size One_nat_def add_0 if_True)
     simp








text \<open>
  Claim C10. For every non-empty buffer received from the remote socket, the loop of the
  outbound framer encrypts exactly the pieces \<open>payload_chunks data\<close>; there is at least
  one, every piece has between 1 and \<open>0x3FFF\<close> bytes, so that its length frame carries a
  value \<open>L\<close> with \<open>1 \<le> L \<le> 0x3FFF\<close> that reads back as the length of the piece, and
  the pieces put together are the input: no byte is dropped or duplicated.
\<close>

theorem outbound_chunks_nonempty_exact:
  assumes "cipher c = Some a" and "data \<noteq> []"
  shows "data_loop E c data =
           (Go, c\<lparr>tx := tx c @ frames_spec E (key a) (nonce a) (payload_chunks data),
                  cipher := Some (a\<lparr>nonce := nonce_after (2 * length (payload_chunks data)) (nonce a)\<rparr>)\<rparr>)
         \<and> payload_chunks data \<noteq> []
         \<and> (\<forall>p \<in> set (payload_chunks data).
               1 \<le> length p \<and> length p \<le> 0x3FFF
               \<and> writeUInt16BE (length p) = Some (uint16be (length p))
               \<and> readUInt16BE (uint16be (length p)) 0 = Some (length p))
         \<and> concat (payload_chunks data) = data"
proof -
  have ne: "payload_chunks data \<noteq> []"
    using assms(2) by (subst payload_chunks.simps) simp
  have each: "1 \<le> length p \<and> length p \<le> 0x3FFF
               \<and> writeUInt16BE (length p) = Some (uint16be (length p))
               \<and> readUInt16BE (uint16be (length p)) 0 = Some (length p)"
    if "p \<in> set (payload_chunks data)" for p
  proof -
    from payload_chunks_bounds [OF that] have b: "1 \<le> length p" "length p \<le> 0x3FFF" by simp_all
    then have lt: "length p < 65536" by simp
    from lt have "writeUInt16BE (length p) = Some (uint16be (length p))"
      by (simp add: writeUInt16BE_def uint16be_def)
    with b uint16be_roundtrip [OF lt] show ?thesis by simp
  qed
  from data_loop_frames [OF assms(1)] ne each payload_chunks_concat show ?thesis by blast
qed

text \<open>The theorem at the three-byte input \<open>[1, 2, 3]\<close>, which is one piece.\<close>

theorem outbound_chunks_nonempty_exact_witness:
  "cipher (init_conn\<lparr>cipher := Some (new_AEAD [])\<rparr>) = Some (new_AEAD [])
   \<and> [1, 2, 3 :: byte] \<noteq> []
   \<and> payload_chunks [1, 2, 3] = [[1, 2, 3]]
   \<and> concat (payload_chunks [1, 2, 3 :: byte]) = [1, 2, 3]
   \<and> tx (snd (data_loop toy_ext (init_conn\<lparr>cipher := Some (new_AEAD [])\<rparr>) [1, 2, 3]))
       = frames_spec toy_ext [] 0 [[1, 2, 3]]"
proof -
  have c: "cipher (init_conn\<lparr>cipher := Some (new_AEAD [])\<rparr>) = Some (new_AEAD [])" by simp
  have d: "[1, 2, 3 :: byte] \<noteq> []" by simp
  have p: "payload_chunks [1, 2, 3 :: byte] = [[1, 2, 3]]"
    by (simp add: payload_chunks.simps [of "[1, 2, 3]"] payload_chunks.simps [of "[]"] subarray_def)
  show ?thesis
    using outbound_chunks_nonempty_exact [OF c d, of toy_ext] c d
    by (simp add: p new_AEAD_def init_conn_def)
qed

subsection \<open>Inbound framer\<close>

lemma decrypt_loop_unfold:
  "decrypt_loop E c data =
     (if data = [] then (Go, c)
      else if length data < cipherTextSize c + TAG_SIZE then (Go, c\<lparr>rx := rx c @ [data]\<rparr>)
      else (case frame_step E c (take (cipherTextSize c + TAG_SIZE) data) of
              Inl r \<Rightarrow> r
            | Inr c' \<Rightarrow> decrypt_loop E c' (drop (cipherTextSize c + TAG_SIZE) data)))"
  by (subst decrypt_loop.simps)
     (simp add: frame_step_def subarray_0 split: option.splits prod.splits)














lemma settle_simps [simp]:
  "settle (Go, c) = c" "settle (Ret, c) = c"
  by (simp_all add: settle_def)








lemmas framer_eval =
  frame_in_def retrieve_def init_decipher_def init_conn_def SALT_SIZE_def TAG_SIZE_def
  decrypt_loop.simps toy_ext_def decrypt_def new_AEAD_def incr_nonce_def subarray_def
  readUInt16BE_def ws_terminate_def warnlog_def



lemma frame_step_frame:
  "frame_step E c ch = Inr c' \<Longrightarrow>
   c' = c\<lparr>decipher := decipher c', cipherTextSize := cipherTextSize c',
          chunkIndex := chunkIndex c', payloads := payloads c'\<rparr>
   \<and> (\<exists>new. payloads c' = payloads c @ new)"
  by (auto simp: frame_step_def split: option.splits prod.splits if_splits)

lemma frame_step_stop_frame:
  "frame_step E c ch = Inl (f, c') \<Longrightarrow>
   c' = c\<lparr>decipher := decipher c', ws_ready := ws_ready c', logs := logs c'\<rparr>"
  by (auto simp: frame_step_def ws_terminate_def warnlog_def split: option.splits prod.splits if_splits)

lemma decrypt_loop_frame:
  "decrypt_loop E c data = (f, c1) \<Longrightarrow>
   c1 = c\<lparr>rx := rx c1, decipher := decipher c1, cipherTextSize := cipherTextSize c1,
          chunkIndex := chunkIndex c1, payloads := payloads c1, ws_ready := ws_ready c1,
          logs := logs c1\<rparr>
   \<and> (\<exists>new. payloads c1 = payloads c @ new)"
proof (induction "length data" arbitrary: c data rule: less_induct)
  case less
  let ?n = "cipherTextSize c + TAG_SIZE"
  show ?case
  proof (cases "data = [] \<or> length data < ?n")
    case True
    with less.prems show ?thesis
      by (auto simp: decrypt_loop_unfold [of E c data] split: if_splits)
  next
    case False
    then have ne: "data \<noteq> []" and ge: "?n \<le> length data" by simp_all
    have pos: "0 < ?n" by (simp add: TAG_SIZE_def)
    show ?thesis
    proof (cases "frame_step E c (take ?n data)")
      case (Inl r)
      have "decrypt_loop E c data = r"
        using Inl False by (simp add: decrypt_loop_unfold [of E c data])
      with less.prems Inl have "frame_step E c (take ?n data) = Inl (f, c1)" by simp
      from frame_step_stop_frame [OF this] have "c1 = c\<lparr>decipher := decipher c1, ws_ready := ws_ready c1, logs := logs c1\<rparr>" .
      then have e: "c1 = c\<lparr>rx := rx c1, decipher := decipher c1, cipherTextSize := cipherTextSize c1,
          chunkIndex := chunkIndex c1, payloads := payloads c1, ws_ready := ws_ready c1,
          logs := logs c1\<rparr>" and "payloads c1 = payloads c"
        by (cases c, cases c1, simp)+
      then show ?thesis by simp
    next
      case (Inr c')
      have l: "decrypt_loop E c' (drop ?n data) = (f, c1)"
        using Inr False less.prems by (simp add: decrypt_loop_unfold [of E c data])
      have "length (drop ?n data) < length data" using ne pos by simp
      from less.hyps [OF this l] frame_step_frame [OF Inr]
      show ?thesis by (cases c, cases c', cases c1) auto
    qed
  qed
qed


lemma readUInt16BE_bound: "readUInt16BE buf off = Some L \<Longrightarrow> L < 65536"
proof -
  assume "readUInt16BE buf off = Some L"
  then have L: "L = unat (buf ! off) * 256 + unat (buf ! (off + 1))"
    by (simp add: readUInt16BE_def split: if_splits)
  have "unat (buf ! off) < 256" "unat (buf ! (off + 1)) < 256"
    using unsigned_less [of "buf ! off", where ?'a = nat]
      unsigned_less [of "buf ! (off + 1)", where ?'a = nat] by simp_all
  with L show ?thesis by simp
qed

lemma decrypt_loop_Nil: "decrypt_loop E c [] = (Go, c)"
  by (simp add: decrypt_loop_unfold [of E c "[]"])

text \<open>
  Claim C1, as the code has it. The framer makes no range check on a decrypted length:
  whenever the tag of a length frame verifies and the plaintext holds two bytes, their
  big-endian value \<open>L\<close>, any number below \<open>65536\<close>, becomes \<^verbatim>\<open>cipherTextSize\<close>, the counter
  advances and the loop goes on with the rest of the data; nothing is logged and the
  WebSocket is not terminated.
\<close>

theorem length_frame_unchecked:
  assumes "decipher c = Some d" and "chunkIndex c mod 2 = 0"
    and "length frame = cipherTextSize c + TAG_SIZE"
    and "decrypt E d (take (cipherTextSize c) frame) (drop (cipherTextSize c) frame) = Some (pt, d')"
    and "readUInt16BE pt 0 = Some L"
  shows "decrypt_loop E c (frame @ rest) =
           decrypt_loop E (c\<lparr>decipher := Some d', cipherTextSize := L,
                              chunkIndex := chunkIndex c + 1\<rparr>) rest
         \<and> decrypt_loop E c frame =
             (Go, c\<lparr>decipher := Some d', cipherTextSize := L, chunkIndex := chunkIndex c + 1\<rparr>)
         \<and> L < 65536"
proof -
  let ?c' = "c\<lparr>decipher := Some d', cipherTextSize := L, chunkIndex := chunkIndex c + 1\<rparr>"
  have ne: "frame \<noteq> []" using assms(3) by (auto simp: TAG_SIZE_def)
  have fs: "frame_step E c frame = Inr ?c'"
    using assms by (simp add: frame_step_def subarray_0)
  have 1: "decrypt_loop E c (frame @ rest) = decrypt_loop E ?c' rest"
    using ne assms(3) fs by (simp add: decrypt_loop_unfold [of E c "frame @ rest"])
  have "decrypt_loop E c frame = decrypt_loop E ?c' []"
    using ne assms(3) fs by (simp add: decrypt_loop_unfold [of E c frame])
  then have 2: "decrypt_loop E c frame = (Go, ?c')"
    by (simp add: decrypt_loop_Nil)
  from 1 2 readUInt16BE_bound [OF assms(5)] show ?thesis by simp
qed

text \<open>The theorem at a length frame that carries \<open>0xFFFF\<close>.\<close>

theorem length_frame_unchecked_witness:
  "decrypt_loop toy_ext (init_conn\<lparr>decipher := Some (new_AEAD [])\<rparr>) ([0xFF, 0xFF] @ replicate 16 0)
     = (Go, init_conn\<lparr>decipher := Some \<lparr>key = [], nonce = 1\<rparr>, cipherTextSize := 65535,
                       chunkIndex := 1\<rparr>)"
proof -
  let ?c = "init_conn\<lparr>decipher := Some (new_AEAD [])\<rparr>"
  have 1: "decipher ?c = Some (new_AEAD [])" by simp
  have 2: "chunkIndex ?c mod 2 = 0" by (simp add: init_conn_def)
  have 3: "length ([0xFF, 0xFF] @ replicate 16 (0::byte)) = cipherTextSize ?c + TAG_SIZE"
    by (simp add: init_conn_def TAG_SIZE_def)
  have 4: "decrypt toy_ext (new_AEAD []) (take (cipherTextSize ?c) ([0xFF, 0xFF] @ replicate 16 0))
       (drop (cipherTextSize ?c) ([0xFF, 0xFF] @ replicate 16 0)) = Some ([0xFF, 0xFF], \<lparr>key = [], nonce = 1\<rparr>)"
    by (simp add: init_conn_def decrypt_def toy_ext_def new_AEAD_def TAG_SIZE_def incr_nonce_def)
  have 5: "readUInt16BE [0xFF, 0xFF] 0 = Some 65535" by (simp add: readUInt16BE_def)
  from length_frame_unchecked [OF 1 2 3 4 5, of "[]"] show ?thesis
    by (simp add: init_conn_def decrypt_loop_Nil)
qed


lemmas machine_eval =
  on_message_def consume_def settle_def framer_eval

text \<open>
  The claim as stated fails: after a salt, a length frame that decodes to \<open>0xFFFF\<close>, and
  likewise one that decodes to \<open>0\<close>, leaves the WebSocket open, logs nothing and sets
  \<^verbatim>\<open>cipherTextSize\<close> to the decoded value.
\<close>

theorem length_frame_range_counterexample:
  "map_option (\<lambda>c. (ws_ready c, cipherTextSize c, chunkIndex c, logs c))
     (run toy_ext init_conn [Message (replicate 32 0 @ [0xFF, 0xFF] @ replicate 16 0)])
     = Some (True, 65535, 1, [])
   \<and> map_option (\<lambda>c. (ws_ready c, cipherTextSize c, chunkIndex c, logs c))
     (run toy_ext init_conn [Message (replicate 32 0 @ [0, 0] @ replicate 16 0)])
     = Some (True, 0, 1, [])"
  by (simp add: machine_eval)



subsection \<open>Address header\<close>

text \<open>
  An address type other than 1, 3 and 4, and the empty payload, take the default branch:
  a warning, \<^verbatim>\<open>ws.terminate()\<close> and return.
\<close>

lemma invalid_atyp_terminates:
  assumes "payloads c = address # ps" and "stage c = CLOSED"
    and "address = [] \<or> (address ! 0 \<noteq> 1 \<and> address ! 0 \<noteq> 3 \<and> address ! 0 \<noteq> 4)"
  shows "consume E c = (Ret, c\<lparr>stage := OPENING, payloads := ps, logs := logs c @ [Warn], ws_ready := False\<rparr>)"
  using assms by (auto simp: consume_def parse_address_def ws_terminate_def warnlog_def)

text \<open>
  A payload with a known address type that ends before its port makes \<^verbatim>\<open>readUInt16BE\<close>
  throw; the exception leaves the handler, which neither logs nor terminates.
\<close>

lemma short_address_throws:
  assumes "payloads c = address # ps" and "stage c = CLOSED" and "address \<noteq> []"
    and "(address ! 0 = 1 \<and> length address < 7) \<or> (address ! 0 = 4 \<and> length address < 19)
         \<or> (address ! 0 = 3 \<and> (length address < 2 \<or> length address < 4 + unat (address ! 1)))"
  shows "consume E c = (Throw RangeError, c\<lparr>stage := OPENING, payloads := ps\<rparr>)"
  using assms by (auto simp: consume_def parse_address_def readUInt16BE_def)

text \<open>
  The bytes after the header go to the tail of the queue (\<^verbatim>\<open>payloads.push\<close>, line 169).
\<close>

lemma trailer_after_queue:
  assumes "payloads c = address # ps" and "stage c = CLOSED"
    and "parse_address E address = Parsed addr port rest" and "rest \<noteq> []"
  shows "payloads (snd (consume E c)) = ps @ [rest]"
  using assms by (simp add: consume_def)

lemmas relay_eval =
  machine_eval parse_address_def write_payloads_def drain_loop.simps on_connected_def
  new_socket_def toString_binary_def

text \<open>
  Claim C3, at a first payload the code does not survive. The payload \<open>01 7F 00 00 01\<close>
  has the address type of IPv4 and five bytes instead of seven. The connection is then in
  the stage OPENING with a RangeError that left the message handler; the WebSocket is
  still open and no warning was logged.
\<close>

theorem short_address_uncaught:
  "map_option (\<lambda>c. (uncaught c, ws_ready c, logs c, stage c, pending c, payloads c))
     (run toy_ext init_conn
        [Message (replicate 32 0 @ [0, 5] @ replicate 16 0 @ [1, 127, 0, 0, 1] @ replicate 16 1)])
   = Some ([RangeError], True, [], OPENING, NoCont, [])"
  by (simp add: relay_eval)

text \<open>
  Claim C2, at a first message the code orders wrongly. One message carries the salt, the
  payload \<open>01 7F 00 00 01 00 50 41\<close> (the header of 127.0.0.1:80 and one more byte
  \<open>0x41\<close>) and a second payload \<open>0x42\<close>. When the remote is connected it is sent \<open>0x42\<close>
  first and \<open>0x41\<close> after it.
\<close>

theorem trailer_enqueued_last:
  "map_option (\<lambda>c. map_option written (remote c))
     (run toy_ext init_conn
        [Message (replicate 32 0
                  @ [0, 8] @ replicate 16 0 @ [1, 127, 0, 0, 1, 0, 80, 0x41] @ replicate 16 1
                  @ [0, 1] @ replicate 16 2 @ [0x42] @ replicate 16 3),
         ConnectOk (replicate 32 7)])
   = Some (Some [[0x42], [0x41]])"
  by (simp add: relay_eval)

subsection \<open>Round trip\<close>
















subsection \<open>Relay state machine\<close>

lemma drain_loop_view:
  "remote c = Some s \<Longrightarrow> drain_loop E c = (f, c') \<Longrightarrow>
   pending c' = pending c \<and> ws_ready c' = ws_ready c \<and> ws_closed c' = ws_closed c
   \<and> tx c' = tx c \<and> cipher c' = cipher c \<and> ws_sent c' = ws_sent c
   \<and> uncaught c' = uncaught c
   \<and> (\<exists>s'. remote c' = Some s' \<and> destroyed s' = destroyed s)
   \<and> ((f = Ret \<and> stage c' = OPEN \<and> ws_paused c' = ws_paused c)
        \<or> (f = Await AtDrain \<and> stage c' = stage c \<and> ws_paused c'))"
proof (induction E c arbitrary: s rule: drain_loop.induct)
  case (1 E c)
  show ?case
  proof (cases "payloads c")
    case Nil
    with "1.prems" show ?thesis by (auto simp: drain_loop.simps [of E c])
  next
    case (Cons p ps)
    show ?thesis
    proof (cases "write_ok E (written s) p")
      case False
      with Cons "1.prems" show ?thesis by (auto simp: drain_loop.simps [of E c])
    next
      case True
      let ?c1 = "c\<lparr>payloads := ps, remote := Some (s\<lparr>written := written s @ [p]\<rparr>)\<rparr>"
      have "drain_loop E ?c1 = (f, c')"
        using Cons True "1.prems" by (simp add: drain_loop.simps [of E c])
      from "1.IH" [OF Cons "1.prems"(1) _ _ this, of "s\<lparr>written := written s @ [p]\<rparr>"] True
      show ?thesis by simp
    qed
  qed
qed

lemma drain_loop_writes:
  "remote c = Some s \<Longrightarrow> drain_loop E c = (f, c') \<Longrightarrow>
   \<exists>ws. written_of c' = written s @ ws \<and> payloads c = ws @ payloads c'
     \<and> (\<forall>i < length ws. \<not> write_ok E (written s @ take i ws) (ws ! i) \<longrightarrow>
            Suc i = length ws \<and> f = Await AtDrain)
     \<and> (f = Await AtDrain \<longrightarrow> ws \<noteq> [] \<and> \<not> write_ok E (written s @ butlast ws) (last ws))
     \<and> (f = Ret \<longrightarrow> payloads c' = [])"
proof (induction E c arbitrary: s rule: drain_loop.induct)
  case (1 E c)
  show ?case
  proof (cases "payloads c")
    case Nil
    with "1.prems" show ?thesis by (auto simp: drain_loop.simps [of E c] written_of_def)
  next
    case (Cons p ps)
    show ?thesis
    proof (cases "write_ok E (written s) p")
      case False
      with Cons "1.prems" have "f = Await AtDrain" "written_of c' = written s @ [p]" "payloads c' = ps"
        by (auto simp: drain_loop.simps [of E c] written_of_def)
      with Cons False show ?thesis
        by (intro exI [of _ "[p]"]) simp
    next
      case True
      let ?s1 = "s\<lparr>written := written s @ [p]\<rparr>"
      let ?c1 = "c\<lparr>payloads := ps, remote := Some ?s1\<rparr>"
      have dl: "drain_loop E ?c1 = (f, c')"
        using Cons True "1.prems" by (simp add: drain_loop.simps [of E c])
      have "\<exists>ws. written_of c' = written ?s1 @ ws \<and> payloads ?c1 = ws @ payloads c'
        \<and> (\<forall>i < length ws. \<not> write_ok E (written ?s1 @ take i ws) (ws ! i) \<longrightarrow>
            Suc i = length ws \<and> f = Await AtDrain)
        \<and> (f = Await AtDrain \<longrightarrow> ws \<noteq> [] \<and> \<not> write_ok E (written ?s1 @ butlast ws) (last ws))
        \<and> (f = Ret \<longrightarrow> payloads c' = [])"
        using True by (intro "1.IH" [OF Cons "1.prems"(1) _ _ dl, of ?s1]) simp_all
      then obtain ws where ws: "written_of c' = written ?s1 @ ws" "payloads ?c1 = ws @ payloads c'"
        "\<forall>i < length ws. \<not> write_ok E (written ?s1 @ take i ws) (ws ! i) \<longrightarrow>
            Suc i = length ws \<and> f = Await AtDrain"
        "f = Await AtDrain \<longrightarrow> ws \<noteq> [] \<and> \<not> write_ok E (written ?s1 @ butlast ws) (last ws)"
        "f = Ret \<longrightarrow> payloads c' = []"
        by blast
      have a: "\<forall>i < length (p # ws). \<not> write_ok E (written s @ take i (p # ws)) ((p # ws) ! i) \<longrightarrow>
            Suc i = length (p # ws) \<and> f = Await AtDrain"
      proof (intro allI impI)
        fix i assume i: "i < length (p # ws)" and no: "\<not> write_ok E (written s @ take i (p # ws)) ((p # ws) ! i)"
        show "Suc i = length (p # ws) \<and> f = Await AtDrain"
        proof (cases i)
          case 0
          with no True show ?thesis by simp
        next
          case (Suc j)
          with i no ws(3) [rule_format, of j] show ?thesis by simp
        qed
      qed
      have b: "f = Await AtDrain \<longrightarrow> p # ws \<noteq> [] \<and> \<not> write_ok E (written s @ butlast (p # ws)) (last (p # ws))"
        using ws(4) by (cases ws) simp_all
      have w: "written_of c' = written s @ p # ws" "payloads c = (p # ws) @ payloads c'"
        using ws(1,2) Cons by simp_all
      from w ws(5) a b show ?thesis
        by (intro exI [of _ "p # ws"]) blast
    qed
  qed
qed


lemma decrypt_loop_view:
  assumes "decrypt_loop E c data = (f, c1)"
  shows "stage c1 = stage c \<and> remote c1 = remote c \<and> pending c1 = pending c
         \<and> ws_paused c1 = ws_paused c \<and> tx c1 = tx c \<and> cipher c1 = cipher c
         \<and> ws_sent c1 = ws_sent c \<and> ws_closed c1 = ws_closed c \<and> uncaught c1 = uncaught c
         \<and> target c1 = target c"
proof -
  from decrypt_loop_frame [OF assms]
  have e: "c1 = c\<lparr>rx := rx c1, decipher := decipher c1, cipherTextSize := cipherTextSize c1,
          chunkIndex := chunkIndex c1, payloads := payloads c1, ws_ready := ws_ready c1,
          logs := logs c1\<rparr>" by blast
  show ?thesis by (subst e, simp)+
qed

end
